theory Spec2Isabelle
  imports Complex_Main "HOL-Library.Multiset"
begin

section \<open>Point cloud transformer: the \<open>Logic\<close> class\<close>

text \<open>
  The program is Python 2 (PyQt4; a file opened with mode \<^verbatim>\<open>'rb'\<close> yields byte strings
  that are compared with \<^verbatim>\<open>'#'\<close> and split on \<^verbatim>\<open>','\<close>). A byte string is a
  \<^typ>\<open>string\<close>; a row is a list of fields; the dataset (\<open>container\<close>) is a list of rows.
\<close>

subsection \<open>Characters and errors\<close>

definition CR :: char where
  "CR = CHR 0x0D"

definition LF :: char where
  "LF = CHR 0x0A"

text \<open>The exceptions the modelled code can raise: \<open>open\<close> on a missing file, and an index
  out of range (\<open>line[0]\<close>, \<open>row[2]\<close>).\<close>

datatype error = IOError | IndexError

type_synonym row = "string list"

subsection \<open>The string and file primitives the code calls\<close>

text \<open>Iterating over a file opened in binary mode: one string per line, each keeping its
  terminating \<open>LF\<close>; a last line without \<open>LF\<close> is yielded as it is. No line is empty.\<close>

fun file_lines :: "string \<Rightarrow> string list" where
  "file_lines [] = []"
| "file_lines (c # cs) =
     (if c = LF then [c] # file_lines cs
      else (case file_lines cs of
              [] \<Rightarrow> [[c]]
            | l # ls \<Rightarrow> (c # l) # ls))"

text \<open>\<open>s.split(sep)\<close> for a one-character separator: the fields between the separators,
  empty fields included; always at least one field.\<close>

fun str_split :: "char \<Rightarrow> string \<Rightarrow> string list" where
  "str_split sep [] = [[]]"
| "str_split sep (c # cs) =
     (if c = sep then [] # str_split sep cs
      else (case str_split sep cs of
              [] \<Rightarrow> [[c]]
            | f # fs \<Rightarrow> (c # f) # fs))"

text \<open>\<open>s.replace('\r\n', '')\<close>: every occurrence of the two-character string CR LF is
  removed, scanning from the left, occurrences not overlapping.\<close>

fun replace_crlf :: "string \<Rightarrow> string" where
  "replace_crlf (a # b # cs) =
     (if a = CR \<and> b = LF then replace_crlf cs else a # replace_crlf (b # cs))"
| "replace_crlf cs = cs"

subsection \<open>\<open>Logic._clean_cloud\<close>\<close>

text \<open>The test \<open>line[0] == '#'\<close> of the loop.\<close>

definition is_noise :: "string \<Rightarrow> bool" where
  "is_noise line = (case line of [] \<Rightarrow> False | c # _ \<Rightarrow> c = CHR ''#'')"

text \<open>The \<open>else\<close> branch of the loop body, for one line: split on the comma, then
  \<open>row[2] = row[2].replace('\r\n', '')\<close>, which raises \<open>IndexError\<close> on a row of fewer than
  three fields.\<close>

definition clean_row :: "string \<Rightarrow> error + row" where
  "clean_row line =
     (let row = str_split (CHR '','') line
      in if length row < 3 then Inl IndexError
         else Inr (row[2 := replace_crlf (row ! 2)]))"

text \<open>The loop over the lines of the file. \<open>line[0]\<close> raises \<open>IndexError\<close> on an empty
  line; a noise line is passed over; any other line is cleaned and appended to the
  container. An exception ends the loop.\<close>

fun clean_lines :: "string list \<Rightarrow> row list \<Rightarrow> error + row list" where
  "clean_lines [] container = Inr container"
| "clean_lines (line # rest) container =
     (if line = [] then Inl IndexError
      else if is_noise line then clean_lines rest container
      else (case clean_row line of
              Inl e \<Rightarrow> Inl e
            | Inr row \<Rightarrow> clean_lines rest (container @ [row])))"

text \<open>The file system is a map from paths to file contents; \<open>open\<close> raises \<open>IOError\<close> on
  a path that is not there.\<close>

definition clean_cloud :: "(string \<rightharpoonup> string) \<Rightarrow> string \<Rightarrow> row list \<Rightarrow> error + row list" where
  "clean_cloud fs filepath container =
     (case fs filepath of
        None \<Rightarrow> Inl IOError
      | Some content \<Rightarrow> clean_lines (file_lines content) container)"

subsection \<open>\<open>Logic.validate_subsample\<close>\<close>

text \<open>A Python float: a finite value (every finite double is a rational number, so the
  comparisons of finite floats are those of the reals), an infinity, or NaN.\<close>

datatype pyfloat = Finite real | PosInf | NegInf | NaN

text \<open>\<open>a < b\<close> and \<open>a <= b\<close> on floats: false as soon as an operand is NaN.\<close>

fun float_lt :: "pyfloat \<Rightarrow> pyfloat \<Rightarrow> bool" where
  "float_lt NaN _ = False"
| "float_lt _ NaN = False"
| "float_lt (Finite a) (Finite b) = (a < b)"
| "float_lt NegInf b = (b \<noteq> NegInf)"
| "float_lt a PosInf = (a \<noteq> PosInf)"
| "float_lt _ _ = False"

fun float_le :: "pyfloat \<Rightarrow> pyfloat \<Rightarrow> bool" where
  "float_le NaN _ = False"
| "float_le _ NaN = False"
| "float_le (Finite a) (Finite b) = (a \<le> b)"
| "float_le NegInf _ = True"
| "float_le _ PosInf = True"
| "float_le _ _ = False"

text \<open>The conversion \<open>float(x)\<close> of the dialog's text is the interpreter's; it is the
  parameter \<open>to_float\<close>, with \<open>None\<close> where it raises \<open>ValueError\<close>. The function returns
  the float, or \<open>None\<close> (the \<open>return\<close> in the handler, and falling off the end).\<close>

definition validate_subsample :: "(string \<Rightarrow> pyfloat option) \<Rightarrow> string \<Rightarrow> pyfloat option" where
  "validate_subsample to_float x =
     (case to_float x of
        None \<Rightarrow> None
      | Some v \<Rightarrow> if float_lt (Finite 0) v \<and> float_le v (Finite 1) then Some v else None)"

subsection \<open>\<open>Logic._xlsx_path\<close>\<close>

text \<open>\<open>os.path\<close> is taken as \<open>posixpath\<close>. \<open>os.path.split\<close>: the tail is what follows the
  last slash; the head is what precedes it, with its trailing slashes removed unless it
  consists of slashes only.\<close>

definition rstrip_slash :: "string \<Rightarrow> string" where
  "rstrip_slash s = rev (dropWhile (\<lambda>c. c = CHR ''/'') (rev s))"

definition path_split :: "string \<Rightarrow> string \<times> string" where
  "path_split p =
     (let head = rev (dropWhile (\<lambda>c. c \<noteq> CHR ''/'') (rev p));
          tail = rev (takeWhile (\<lambda>c. c \<noteq> CHR ''/'') (rev p))
      in (if head \<noteq> [] \<and> head \<noteq> replicate (length head) (CHR ''/'')
          then rstrip_slash head else head,
          tail))"

text \<open>\<open>s.rfind(c)\<close>: the index of the last occurrence of \<open>c\<close>, or \<open>-1\<close>.\<close>

definition rfind :: "char \<Rightarrow> string \<Rightarrow> int" where
  "rfind c s =
     (if c \<in> set s then int (length s) - 1 - int (length (takeWhile (\<lambda>x. x \<noteq> c) (rev s)))
      else - 1)"

text \<open>\<open>os.path.splitext\<close>: the extension starts at the last dot, provided that dot comes
  after the last slash and some character between the two is not a dot.\<close>

definition splitext :: "string \<Rightarrow> string \<times> string" where
  "splitext p =
     (let sepIndex = rfind (CHR ''/'') p;
          dotIndex = rfind (CHR ''.'') p
      in if dotIndex > sepIndex \<and>
            list_ex (\<lambda>c. c \<noteq> CHR ''.'')
              (take (nat (dotIndex - (sepIndex + 1))) (drop (nat (sepIndex + 1)) p))
         then (take (nat dotIndex) p, drop (nat dotIndex) p)
         else (p, []))"

text \<open>\<open>os.path.join(a, b)\<close> for two components.\<close>

definition path_join :: "string \<Rightarrow> string \<Rightarrow> string" where
  "path_join a b =
     (if b \<noteq> [] \<and> hd b = CHR ''/'' then b
      else if a = [] \<or> last a = CHR ''/'' then a @ b
      else a @ ''/'' @ b)"

definition xlsx_path :: "string \<Rightarrow> string" where
  "xlsx_path filepath =
     (let (head, tail) = path_split filepath;
          filename = fst (splitext tail)
      in path_join head (filename @ ''.xlsx''))"

subsection \<open>\<open>Logic._create_xlsx\<close> and \<open>Logic.transform\<close>\<close>

text \<open>
  Modelled from the spec: the sampling routine \<open>DataFrame.sample\<close> and the spreadsheet
  writer \<open>DataFrame.to_excel\<close> belong to the pandas library and are not in the source.
  The spec (4.3) describes them: ``select \<open>round(fraction \<times> N)\<close> rows uniformly at random
  without replacement, and persist them to a spreadsheet file ..., using no header row
  and no index column''. \<open>draw\<close> selects \<open>n\<close> rows without replacement: \<open>rnd\<close> is the
  stream of numbers of the random generator, and each drawn row leaves the pool.
  The fraction is taken in exact arithmetic. How the library lays out rows of
  different lengths is not described by the spec and not modelled.
\<close>

fun draw :: "(nat \<Rightarrow> nat) \<Rightarrow> nat \<Rightarrow> 'a list \<Rightarrow> 'a list" where
  "draw rnd 0 pool = []"
| "draw rnd (Suc n) pool =
     (if pool = [] then []
      else (let i = rnd n mod length pool
            in pool ! i # draw rnd n (take i pool @ drop (Suc i) pool)))"

text \<open>Modelled from the spec: \<open>DataFrame.sample(frac=fraction)\<close> draws
  \<open>round(fraction \<times> N)\<close> of the \<open>N\<close> rows.\<close>

definition sample :: "(nat \<Rightarrow> nat) \<Rightarrow> real \<Rightarrow> 'a list \<Rightarrow> 'a list" where
  "sample rnd fraction rows = draw rnd (nat (round (fraction * real (length rows)))) rows"

text \<open>\<open>_create_xlsx\<close> samples the data at the fraction \<open>subsample\<close>, the generator seeded
  with \<open>seed\<close>, the outcome of \<open>random.randint(0, 10)\<close>, and writes the sample at
  \<open>_xlsx_path(filepath)\<close>. The write is the value returned: the path and the rows of the
  sheet (no header row, no index column).\<close>

definition create_xlsx ::
  "(nat \<Rightarrow> nat \<Rightarrow> nat) \<Rightarrow> nat \<Rightarrow> string \<Rightarrow> row list \<Rightarrow> real \<Rightarrow> string \<times> row list" where
  "create_xlsx rng seed filepath data subsample =
     (xlsx_path filepath, sample (rng seed) subsample data)"

text \<open>\<open>transform\<close>: clean, then write. An exception of the cleaning step ends the run with
  nothing written.\<close>

definition transform ::
  "(nat \<Rightarrow> nat \<Rightarrow> nat) \<Rightarrow> nat \<Rightarrow> (string \<rightharpoonup> string) \<Rightarrow> string \<Rightarrow> row list \<Rightarrow> real
     \<Rightarrow> error + string \<times> row list" where
  "transform rng seed fs filepath container subsample =
     (case clean_cloud fs filepath container of
        Inl e \<Rightarrow> Inl e
      | Inr data \<Rightarrow> Inr (create_xlsx rng seed filepath data subsample))"

subsection \<open>A predicate on lines\<close>

text \<open>A string in which carriage return and line feed occur only as the pair CR LF, as
  in a text file with Windows line endings.\<close>

fun crlf_paired :: "string \<Rightarrow> bool" where
  "crlf_paired [] = True"
| "crlf_paired [a] = (a \<noteq> CR \<and> a \<noteq> LF)"
| "crlf_paired (a # b # cs) =
     (if a = CR \<and> b = LF then crlf_paired cs
      else a \<noteq> CR \<and> a \<noteq> LF \<and> crlf_paired (b # cs))"

subsection \<open>Clean input files\<close>




section \<open>Properties\<close>

subsection \<open>Lines, fields and the cleaning loop\<close>

lemma file_lines_nonempty: "l \<in> set (file_lines s) \<Longrightarrow> l \<noteq> []"
  by (induction s arbitrary: l) (auto split: if_splits list.splits)

lemma str_split_not_Nil: "str_split sep s \<noteq> []"
  by (induction s) (auto split: list.splits)

lemma length_str_split: "length (str_split sep s) = Suc (count_list s sep)"
  by (induction s) (auto split: list.splits simp: str_split_not_Nil)

lemma clean_row_Inl: "clean_row l = Inl e \<Longrightarrow> e = IndexError"
  by (auto simp: clean_row_def Let_def split: if_splits)

lemma clean_row_Inr_iff:
  "(\<exists>r. clean_row l = Inr r) = (3 \<le> length (str_split (CHR '','') l))"
  by (auto simp: clean_row_def Let_def)

lemma clean_row_length:
  "clean_row l = Inr r \<Longrightarrow> length r = length (str_split (CHR '','') l)"
  by (auto simp: clean_row_def Let_def split: if_splits)

lemma clean_lines_Inl: "clean_lines ls c = Inl e \<Longrightarrow> e = IndexError"
proof (induction ls c rule: clean_lines.induct)
  case (1 container)
  then show ?case by simp
next
  case (2 line rest container)
  then show ?case
    by (auto split: if_splits sum.splits dest: clean_row_Inl)
qed

lemma clean_lines_filter:
  "clean_lines (filter (\<lambda>l. \<not> is_noise l) ls) c = clean_lines ls c"
proof (induction ls c rule: clean_lines.induct)
  case (1 container)
  then show ?case by simp
next
  case (2 line rest container)
  then show ?case
    by (cases "clean_row line") (auto simp: is_noise_def)
qed

lemma clean_lines_Inr:
  "clean_lines ls c = Inr rows \<Longrightarrow>
     \<exists>new. rows = c @ new \<and> map Inr new = map clean_row (filter (\<lambda>l. \<not> is_noise l) ls)"
proof (induction ls c arbitrary: rows rule: clean_lines.induct)
  case (1 container)
  then show ?case by simp
next
  case (2 line rest container)
  show ?case
  proof (cases "is_noise line")
    case True
    with 2 show ?thesis by (auto split: if_splits)
  next
    case False
    with "2.prems" obtain r where r: "clean_row line = Inr r" and ne: "line \<noteq> []"
      and rec: "clean_lines rest (container @ [r]) = Inr rows"
      by (auto split: if_splits sum.splits)
    from "2.IH"(2)[OF ne False r rec] obtain new where
      "rows = (container @ [r]) @ new"
      "map Inr new = map clean_row (filter (\<lambda>l. \<not> is_noise l) rest)"
      by blast
    with r False show ?thesis
      by (intro exI[of _ "r # new"]) simp
  qed
qed

lemma clean_lines_bad:
  "l \<in> set ls \<Longrightarrow> \<not> is_noise l \<Longrightarrow> length (str_split (CHR '','') l) < 3 \<Longrightarrow>
     clean_lines ls c = Inl IndexError"
proof (induction ls c rule: clean_lines.induct)
  case (1 container)
  then show ?case by simp
next
  case (2 line rest container)
  then show ?case
    by (cases "clean_row line") (auto simp: clean_row_def Let_def split: if_splits)
qed

lemma clean_lines_ok:
  "\<forall>l\<in>set ls. l \<noteq> [] \<and> (\<not> is_noise l \<longrightarrow> 3 \<le> length (str_split (CHR '','') l)) \<Longrightarrow>
     \<exists>rows. clean_lines ls c = Inr rows"
proof (induction ls c rule: clean_lines.induct)
  case (1 container)
  then show ?case by simp
next
  case (2 line rest container)
  then show ?case
    by (cases "clean_row line") (auto simp: clean_row_def Let_def split: if_splits)
qed

lemma crlf_paired_Cons:
  "a \<noteq> CR \<Longrightarrow> a \<noteq> LF \<Longrightarrow> crlf_paired (a # s) = crlf_paired s"
  by (cases s) auto

lemma crlf_paired_replace:
  "crlf_paired s \<Longrightarrow> CR \<notin> set (replace_crlf s) \<and> LF \<notin> set (replace_crlf s)"
  by (induction s rule: crlf_paired.induct) (auto split: if_splits)

lemma crlf_paired_split:
  "crlf_paired s \<Longrightarrow> sep \<noteq> CR \<Longrightarrow> sep \<noteq> LF \<Longrightarrow> f \<in> set (str_split sep s) \<Longrightarrow> crlf_paired f"
proof (induction s arbitrary: f rule: crlf_paired.induct)
  case 1
  then show ?case by simp
next
  case (2 a)
  then show ?case by (auto split: if_splits)
next
  case (3 a b cs)
  show ?case
  proof (cases "a = CR \<and> b = LF")
    case True
    obtain g gs where g: "str_split sep cs = g # gs"
      using str_split_not_Nil[of sep cs] by (cases "str_split sep cs") auto
    with True 3 show ?thesis
      by (auto split: if_splits)
  next
    case False
    obtain g gs where g: "str_split sep (b # cs) = g # gs"
      using str_split_not_Nil[of sep "b # cs"] by (cases "str_split sep (b # cs)") auto
    from False "3.prems"(1) have a: "a \<noteq> CR" "a \<noteq> LF" and rest: "crlf_paired (b # cs)"
      by (auto split: if_splits)
    have IH: "\<And>f. f \<in> set (g # gs) \<Longrightarrow> crlf_paired f"
      using "3.IH"(2)[OF False rest "3.prems"(2,3)] g by simp
    show ?thesis
    proof (cases "a = sep")
      case True
      with "3.prems"(4) have "f = [] \<or> f \<in> set (g # gs)"
        using g by (auto split: if_splits)
      with IH show ?thesis by auto
    next
      case False
      with "3.prems"(4) have "f = a # g \<or> f \<in> set gs"
        using g by (auto split: if_splits)
      with IH a show ?thesis
        by (auto simp: crlf_paired_Cons)
    qed
  qed
qed

subsection \<open>Splitting and joining paths\<close>

lemma path_split_tail_no_slash: "CHR ''/'' \<notin> set (snd (path_split p))"
proof -
  have "\<forall>c \<in> set (takeWhile (\<lambda>c. c \<noteq> CHR ''/'') (rev p)). c \<noteq> CHR ''/''"
    by (auto dest: set_takeWhileD)
  then show ?thesis
    by (auto simp: path_split_def Let_def)
qed

lemma rstrip_slash_last:
  "rstrip_slash s \<noteq> [] \<Longrightarrow> last (rstrip_slash s) \<noteq> CHR ''/''"
proof -
  assume ne: "rstrip_slash s \<noteq> []"
  let ?d = "dropWhile (\<lambda>c. c = CHR ''/'') (rev s)"
  from ne have d: "?d \<noteq> []" by (simp add: rstrip_slash_def)
  then have "hd ?d \<noteq> CHR ''/''"
    using hd_dropWhile[of "\<lambda>c. c = CHR ''/''" "rev s"] by simp
  with d show ?thesis
    by (simp add: rstrip_slash_def last_rev)
qed

lemma rstrip_slash_Nil_iff:
  "rstrip_slash s = [] \<longleftrightarrow> s = replicate (length s) (CHR ''/'')"
proof -
  have "rstrip_slash s = [] \<longleftrightarrow> (\<forall>c \<in> set (rev s). c = CHR ''/'')"
    by (simp add: rstrip_slash_def dropWhile_eq_Nil_conv)
  also have "\<dots> \<longleftrightarrow> (\<forall>c \<in> set s. c = CHR ''/'')"
    by simp
  also have "\<dots> \<longleftrightarrow> s = replicate (length s) (CHR ''/'')"
    by (metis in_set_replicate replicate_eqI)
  finally show ?thesis .
qed

text \<open>The head that \<open>os.path.split\<close> returns is empty, or slashes only, or does not end
  with a slash.\<close>

lemma path_split_head_cases:
  "fst (path_split p) = [] \<or>
   fst (path_split p) = replicate (length (fst (path_split p))) (CHR ''/'') \<or>
   last (fst (path_split p)) \<noteq> CHR ''/''"
proof -
  let ?h = "rev (dropWhile (\<lambda>c. c \<noteq> CHR ''/'') (rev p))"
  show ?thesis
  proof (cases "?h \<noteq> [] \<and> ?h \<noteq> replicate (length ?h) (CHR ''/'')")
    case True
    then have f: "fst (path_split p) = rstrip_slash ?h"
      by (simp add: path_split_def Let_def)
    from True have "rstrip_slash ?h \<noteq> []"
      using rstrip_slash_Nil_iff[of ?h] by blast
    then have "last (rstrip_slash ?h) \<noteq> CHR ''/''"
      by (rule rstrip_slash_last)
    with f show ?thesis by simp
  next
    case False
    then have f: "fst (path_split p) = ?h"
      by (auto simp: path_split_def Let_def)
    from False show ?thesis
      unfolding f by blast
  qed
qed

lemma path_split_join:
  assumes x: "CHR ''/'' \<notin> set x" "x \<noteq> []"
    and h: "h = [] \<or> h = replicate (length h) (CHR ''/'') \<or> last h \<noteq> CHR ''/''"
  shows "path_split (path_join h x) = (h, x)"
proof -
  let ?P = "\<lambda>c. c \<noteq> CHR ''/''"
  from x have hdx: "hd x \<noteq> CHR ''/''"
    by (cases x) auto
  have tw: "takeWhile ?P (rev x @ ys) = rev x @ takeWhile ?P ys" for ys
    using x(1) by (intro takeWhile_append2) auto
  have dw: "dropWhile ?P (rev x @ ys) = dropWhile ?P ys" for ys
    using x(1) by (intro dropWhile_append2) auto
  consider (empty) "h = []"
    | (slashes) "h \<noteq> []" "h = replicate (length h) (CHR ''/'')"
    | (name) "h \<noteq> []" "last h \<noteq> CHR ''/''"
    using h by blast
  then show ?thesis
  proof cases
    case empty
    then have j: "path_join h x = x"
      using hdx by (simp add: path_join_def)
    have t: "takeWhile ?P (rev x) = rev x" and d: "dropWhile ?P (rev x) = []"
      using x(1) by (auto simp: takeWhile_eq_all_conv)
    show ?thesis
      unfolding j by (simp add: path_split_def Let_def t d empty)
  next
    case slashes
    then obtain n where n: "h = replicate (Suc n) (CHR ''/'')"
      by (cases "length h") auto
    have last: "last h = CHR ''/''"
      unfolding n by simp
    with slashes have j: "path_join h x = h @ x"
      using hdx by (simp add: path_join_def)
    have rh: "rev h = CHR ''/'' # replicate n (CHR ''/'')"
      unfolding n by (simp add: replicate_append_same)
    have t: "takeWhile ?P (rev x @ rev h) = rev x"
      using tw[of "rev h"] by (simp add: rh)
    have d: "dropWhile ?P (rev x @ rev h) = rev h"
      using dw[of "rev h"] by (simp add: rh)
    have "path_split (h @ x) = (if h \<noteq> [] \<and> h \<noteq> replicate (length h) (CHR ''/'')
                                then rstrip_slash h else h, x)"
      by (simp add: path_split_def Let_def t d)
    also have "\<dots> = (h, x)"
      using slashes(2) by simp
    finally show ?thesis
      unfolding j .
  next
    case name
    then have j: "path_join h x = h @ CHR ''/'' # x"
      using hdx by (simp add: path_join_def)
    have t: "takeWhile ?P (rev x @ CHR ''/'' # rev h) = rev x"
      using tw[of "CHR ''/'' # rev h"] by simp
    have d: "dropWhile ?P (rev x @ CHR ''/'' # rev h) = CHR ''/'' # rev h"
      using dw[of "CHR ''/'' # rev h"] by simp
    have hdr: "hd (rev h) \<noteq> CHR ''/''"
      using name by (simp add: hd_rev)
    have strip: "rstrip_slash (h @ ''/'') = h"
      using name(1) hdr by (cases "rev h") (auto simp: rstrip_slash_def)
    have notrep: "h @ ''/'' \<noteq> replicate (Suc (length h)) (CHR ''/'')"
    proof
      assume "h @ ''/'' = replicate (Suc (length h)) (CHR ''/'')"
      then have "h @ ''/'' = replicate (length h) (CHR ''/'') @ ''/''"
        by (simp add: replicate_append_same)
      then have "h = replicate (length h) (CHR ''/'')" by simp
      then have "last h = CHR ''/''"
        using name(1) by (metis last_replicate length_0_conv)
      with name(2) show False by simp
    qed
    have "path_split (h @ CHR ''/'' # x) =
            (if h @ ''/'' \<noteq> replicate (Suc (length h)) (CHR ''/'')
             then rstrip_slash (h @ ''/'') else h @ ''/'', x)"
      by (simp add: path_split_def Let_def t d)
    also have "\<dots> = (h, x)"
      using strip notrep by simp
    finally show ?thesis
      unfolding j .
  qed
qed

lemma splitext_root_subset: "set (fst (splitext p)) \<subseteq> set p"
  by (auto simp: splitext_def Let_def dest: in_set_takeD)

subsection \<open>Drawing without replacement\<close>

lemma mset_remove_nth:
  "i < length xs \<Longrightarrow> mset xs = add_mset (xs ! i) (mset (take i xs @ drop (Suc i) xs))"
proof -
  assume "i < length xs"
  then have "xs = take i xs @ xs ! i # drop (Suc i) xs"
    by (rule id_take_nth_drop)
  then have "mset xs = mset (take i xs @ xs ! i # drop (Suc i) xs)"
    by simp
  then show ?thesis
    by simp
qed

lemma mset_draw: "mset (draw rnd n pool) \<subseteq># mset pool"
proof (induction n arbitrary: pool)
  case 0
  then show ?case by simp
next
  case (Suc n)
  show ?case
  proof (cases "pool = []")
    case True
    then show ?thesis by simp
  next
    case False
    let ?i = "rnd n mod length pool"
    let ?rest = "take ?i pool @ drop (Suc ?i) pool"
    from False have i: "?i < length pool" by simp
    have "mset (draw rnd (Suc n) pool) = add_mset (pool ! ?i) (mset (draw rnd n ?rest))"
      using False by (simp add: Let_def)
    also have "\<dots> \<subseteq># add_mset (pool ! ?i) (mset ?rest)"
      using Suc.IH[of ?rest] by (simp only: mset_subset_eq_add_mset_cancel)
    also have "\<dots> = mset pool"
      using mset_remove_nth[OF i] by simp
    finally show ?thesis .
  qed
qed

lemma length_draw: "length (draw rnd n pool) = min n (length pool)"
proof (induction n arbitrary: pool)
  case 0
  then show ?case by simp
next
  case (Suc n)
  show ?case
  proof (cases "pool = []")
    case True
    then show ?thesis by simp
  next
    case False
    let ?i = "rnd n mod length pool"
    let ?rest = "take ?i pool @ drop (Suc ?i) pool"
    from False have i: "?i < length pool" by simp
    then have rest: "length ?rest = length pool - 1"
      by simp
    have "length (draw rnd (Suc n) pool) = Suc (length (draw rnd n ?rest))"
      using False by (simp add: Let_def)
    also have "\<dots> = Suc (min n (length pool - 1))"
      using Suc.IH[of ?rest] rest by simp
    also have "\<dots> = min (Suc n) (length pool)"
      using i by linarith
    finally show ?thesis .
  qed
qed




lemma round_fraction_le:
  assumes "0 < f" and "f \<le> 1"
  shows "nat (round (f * real n)) \<le> n"
proof -
  have "f * real n \<le> real n"
    using assms by (simp add: mult_left_le_one_le)
  then have "round (f * real n) \<le> round (real n)"
    by (rule round_mono)
  then show ?thesis by simp
qed

subsection \<open>Cleaning a file written from rows\<close>








section \<open>The claims\<close>

subsection \<open>The input cleaner\<close>

text \<open>
  Claim C3. A line whose first character is \<open>#\<close> contributes nothing to the cleaned
  dataset: cleaning a file gives the result (the rows, or the exception) of cleaning its
  other lines alone, whatever the noise lines hold and wherever they stand.
\<close>

theorem noise_lines_dropped:
  assumes "fs filepath = Some content"
  shows "clean_cloud fs filepath container =
           clean_lines (filter (\<lambda>l. \<not> is_noise l) (file_lines content)) container"
  using assms by (simp add: clean_cloud_def clean_lines_filter)

theorem noise_lines_dropped_witness:
  "[''a.txt'' \<mapsto> ''#x,y'' @ [CR, LF] @ ''1,2,3'' @ [CR, LF]] ''a.txt'' =
       Some (''#x,y'' @ [CR, LF] @ ''1,2,3'' @ [CR, LF])
   \<and> clean_cloud [''a.txt'' \<mapsto> ''#x,y'' @ [CR, LF] @ ''1,2,3'' @ [CR, LF]] ''a.txt'' [] =
       clean_lines [''1,2,3'' @ [CR, LF]] []
   \<and> clean_lines [''1,2,3'' @ [CR, LF]] [] = Inr [[''1'', ''2'', ''3'']]"
proof -
  let ?c = "''#x,y'' @ [CR, LF] @ ''1,2,3'' @ [CR, LF]"
  have h: "[''a.txt'' \<mapsto> ?c] ''a.txt'' = Some ?c"
    by simp
  have f: "filter (\<lambda>l. \<not> is_noise l) (file_lines ?c) = [''1,2,3'' @ [CR, LF]]"
    by code_simp
  have r: "clean_lines [''1,2,3'' @ [CR, LF]] [] = Inr [[''1'', ''2'', ''3'']]"
    by code_simp
  have c: "clean_cloud [''a.txt'' \<mapsto> ?c] ''a.txt'' [] = clean_lines [''1,2,3'' @ [CR, LF]] []"
    using noise_lines_dropped[of "[''a.txt'' \<mapsto> ?c]" "''a.txt''" ?c "[]", OF h]
    unfolding f .
  show ?thesis
    by (rule conjI[OF h conjI[OF c r]])
qed

text \<open>
  Claim C8. The cleaned dataset keeps the order of the file: the rows appended to the
  container are, one for one and in this order, the cleaned rows of the lines of the file
  that are not noise lines.
\<close>

theorem clean_cloud_order:
  assumes "clean_cloud fs filepath container = Inr rows"
    and "fs filepath = Some content"
  shows "\<exists>new. rows = container @ new \<and>
           map Inr new = map clean_row (filter (\<lambda>l. \<not> is_noise l) (file_lines content))"
  using assms clean_lines_Inr[of "file_lines content" container rows]
  by (simp add: clean_cloud_def)

theorem clean_cloud_order_witness:
  "clean_cloud [''a.txt'' \<mapsto> ''4,5,6'' @ [CR, LF] @ ''#x,y'' @ [CR, LF] @ ''1,2,3'' @ [CR, LF]]
       ''a.txt'' [] = Inr [[''4'', ''5'', ''6''], [''1'', ''2'', ''3'']]
   \<and> (\<exists>new. [[''4'', ''5'', ''6''], [''1'', ''2'', ''3'']] = [] @ new \<and>
         map Inr new =
           map clean_row
             (filter (\<lambda>l. \<not> is_noise l)
               (file_lines (''4,5,6'' @ [CR, LF] @ ''#x,y'' @ [CR, LF] @ ''1,2,3'' @ [CR, LF]))))"
proof -
  let ?c = "''4,5,6'' @ [CR, LF] @ ''#x,y'' @ [CR, LF] @ ''1,2,3'' @ [CR, LF]"
  have h: "[''a.txt'' \<mapsto> ?c] ''a.txt'' = Some ?c"
    by simp
  have r: "clean_cloud [''a.txt'' \<mapsto> ?c] ''a.txt'' [] =
             Inr [[''4'', ''5'', ''6''], [''1'', ''2'', ''3'']]"
    by code_simp
  show ?thesis
    by (rule conjI[OF r clean_cloud_order[where fs = "[''a.txt'' \<mapsto> ?c]", OF r h]])
qed

text \<open>
  Claim C6. A file with a line that is not a noise line and has fewer than three
  comma-separated fields makes the cleaner raise \<open>IndexError\<close>; nothing handles it, and
  \<open>transform\<close> ends with the same exception, having written nothing.
\<close>

theorem malformed_row_fails:
  assumes "fs filepath = Some content"
    and "l \<in> set (file_lines content)"
    and "\<not> is_noise l"
    and "length (str_split (CHR '','') l) < 3"
  shows "clean_cloud fs filepath container = Inl IndexError \<and>
         transform rng seed fs filepath container subsample = Inl IndexError"
proof -
  have "clean_lines (file_lines content) container = Inl IndexError"
    using assms(2-4) by (rule clean_lines_bad)
  with assms(1) show ?thesis
    by (simp add: clean_cloud_def transform_def)
qed

theorem malformed_row_fails_witness:
  "[''a.txt'' \<mapsto> ''1,2,3'' @ [CR, LF] @ ''1,2'' @ [CR, LF]] ''a.txt'' =
       Some (''1,2,3'' @ [CR, LF] @ ''1,2'' @ [CR, LF])
   \<and> ''1,2'' @ [CR, LF] \<in> set (file_lines (''1,2,3'' @ [CR, LF] @ ''1,2'' @ [CR, LF]))
   \<and> \<not> is_noise (''1,2'' @ [CR, LF])
   \<and> length (str_split (CHR '','') (''1,2'' @ [CR, LF])) < 3
   \<and> clean_cloud [''a.txt'' \<mapsto> ''1,2,3'' @ [CR, LF] @ ''1,2'' @ [CR, LF]] ''a.txt'' [] =
       Inl IndexError
   \<and> transform (\<lambda>seed n. seed + n) 7
         [''a.txt'' \<mapsto> ''1,2,3'' @ [CR, LF] @ ''1,2'' @ [CR, LF]] ''a.txt'' [] 1 =
       Inl IndexError"
proof -
  let ?c = "''1,2,3'' @ [CR, LF] @ ''1,2'' @ [CR, LF]"
  have h1: "[''a.txt'' \<mapsto> ?c] ''a.txt'' = Some ?c"
    by simp
  have h2: "''1,2'' @ [CR, LF] \<in> set (file_lines ?c)"
    by code_simp
  have h3: "\<not> is_noise (''1,2'' @ [CR, LF])"
    by code_simp
  have h4: "length (str_split (CHR '','') (''1,2'' @ [CR, LF])) < 3"
    by code_simp
  note c = malformed_row_fails[where fs = "[''a.txt'' \<mapsto> ?c]" and container = "[]"
      and rng = "\<lambda>seed n. seed + n" and seed = 7 and subsample = 1, OF h1 h2 h3 h4]
  show ?thesis
    by (intro conjI h1 h2 h3 h4 conjunct1[OF c] conjunct2[OF c])
qed

text \<open>
  Claim C5, as stated, fails: a line of four fields gives a row of four fields.
\<close>

theorem exactly_three_fields_counterexample:
  "\<not> is_noise (''1,2,3,4'' @ [CR, LF])
   \<and> clean_cloud [''a.txt'' \<mapsto> ''1,2,3,4'' @ [CR, LF]] ''a.txt'' [] =
       Inr [[''1'', ''2'', ''3'', ''4'' @ [CR, LF]]]
   \<and> length [''1'', ''2'', ''3'', ''4'' @ [CR, LF]] = 4"
  by code_simp

text \<open>
  Claim C5, amended. Every row of the cleaned dataset has at least three fields: as many
  as its source line has comma-separated fields, one more than the line has commas (so
  exactly three when the line has exactly two commas).
\<close>

theorem row_width:
  assumes "clean_cloud fs filepath [] = Inr rows"
    and "fs filepath = Some content"
  shows "(\<forall>r \<in> set rows. 3 \<le> length r) \<and>
         map length rows =
           map (\<lambda>l. Suc (count_list l (CHR '','')))
             (filter (\<lambda>l. \<not> is_noise l) (file_lines content))"
proof -
  let ?ls = "filter (\<lambda>l. \<not> is_noise l) (file_lines content)"
  from assms have eq: "map Inr rows = map clean_row ?ls"
    using clean_lines_Inr[of "file_lines content" "[]" rows] by (simp add: clean_cloud_def)
  then have len: "length rows = length ?ls"
    by (metis length_map)
  have nth: "clean_row (?ls ! i) = Inr (rows ! i)" if "i < length rows" for i
    using that eq len by (metis nth_map)
  have w: "length (rows ! i) = Suc (count_list (?ls ! i) (CHR '',''))" if "i < length rows" for i
    using clean_row_length[OF nth[OF that]] by (simp add: length_str_split)
  have "3 \<le> length (rows ! i)" if "i < length rows" for i
    using nth[OF that] clean_row_Inr_iff[of "?ls ! i"] clean_row_length[OF nth[OF that]]
    by auto
  then have a: "\<forall>r \<in> set rows. 3 \<le> length r"
    by (auto simp: in_set_conv_nth)
  have b: "map length rows = map (\<lambda>l. Suc (count_list l (CHR '',''))) ?ls"
    using len w by (auto intro!: nth_equalityI)
  from a b show ?thesis by blast
qed

theorem row_width_witness:
  "clean_cloud [''a.txt'' \<mapsto> ''1,2,3,4'' @ [CR, LF] @ ''5,6,7'' @ [CR, LF]] ''a.txt'' [] =
       Inr [[''1'', ''2'', ''3'', ''4'' @ [CR, LF]], [''5'', ''6'', ''7'']]
   \<and> 3 \<le> length [''1'', ''2'', ''3'', ''4'' @ [CR, LF]]
   \<and> 3 \<le> length [''5'', ''6'', ''7'']
   \<and> map length [[''1'', ''2'', ''3'', ''4'' @ [CR, LF]], [''5'', ''6'', ''7'']] =
       map (\<lambda>l. Suc (count_list l (CHR '','')))
         (filter (\<lambda>l. \<not> is_noise l)
           (file_lines (''1,2,3,4'' @ [CR, LF] @ ''5,6,7'' @ [CR, LF])))"
proof -
  let ?c = "''1,2,3,4'' @ [CR, LF] @ ''5,6,7'' @ [CR, LF]"
  let ?r1 = "[''1'', ''2'', ''3'', ''4'' @ [CR, LF]]"
  let ?r2 = "[''5'', ''6'', ''7'']"
  have h: "[''a.txt'' \<mapsto> ?c] ''a.txt'' = Some ?c"
    by simp
  have r: "clean_cloud [''a.txt'' \<mapsto> ?c] ''a.txt'' [] = Inr [?r1, ?r2]"
    by code_simp
  note w = row_width[where fs = "[''a.txt'' \<mapsto> ?c]", OF r h]
  have w1: "3 \<le> length ?r1"
    by (rule bspec[OF conjunct1[OF w]]) simp
  have w2: "3 \<le> length ?r2"
    by (rule bspec[OF conjunct1[OF w]]) simp
  show ?thesis
    by (intro conjI r w1 w2 conjunct2[OF w])
qed

text \<open>
  Claim C2, as stated, fails: the cleaner removes the two-character string CR LF only, and
  a line that ends with a bare line feed keeps it in its third field.
\<close>

theorem third_field_counterexample:
  "\<not> is_noise (''1,2,3'' @ [LF])
   \<and> clean_cloud [''a.txt'' \<mapsto> ''1,2,3'' @ [LF]] ''a.txt'' [] = Inr [[''1'', ''2'', ''3'' @ [LF]]]
   \<and> LF \<in> set ([[''1'', ''2'', ''3'' @ [LF]]] ! 0 ! 2)"
  by code_simp

text \<open>
  Claim C2, amended. For every line of the file that is not a noise line and in which
  carriage return and line feed occur only as the pair CR LF, the third field of the
  corresponding row of the cleaned dataset contains neither a carriage return nor a line
  feed.
\<close>

theorem third_field_clean:
  assumes "clean_cloud fs filepath [] = Inr rows"
    and "fs filepath = Some content"
    and "i < length rows"
    and "crlf_paired (filter (\<lambda>l. \<not> is_noise l) (file_lines content) ! i)"
  shows "CR \<notin> set (rows ! i ! 2) \<and> LF \<notin> set (rows ! i ! 2)"
proof -
  let ?ls = "filter (\<lambda>l. \<not> is_noise l) (file_lines content)"
  let ?fields = "str_split (CHR '','') (?ls ! i)"
  from assms(1,2) have eq: "map Inr rows = map clean_row ?ls"
    using clean_lines_Inr[of "file_lines content" "[]" rows] by (simp add: clean_cloud_def)
  then have len: "length rows = length ?ls"
    by (metis length_map)
  have row: "clean_row (?ls ! i) = Inr (rows ! i)"
    using assms(3) eq len by (metis nth_map)
  then have three: "3 \<le> length ?fields"
    using clean_row_Inr_iff[of "?ls ! i"] by auto
  from row three have "rows ! i = ?fields[2 := replace_crlf (?fields ! 2)]"
    by (simp add: clean_row_def Let_def)
  with three have third: "rows ! i ! 2 = replace_crlf (?fields ! 2)"
    by simp
  have sep: "CHR '','' \<noteq> CR" "CHR '','' \<noteq> LF"
    by (simp_all add: CR_def LF_def)
  have "?fields ! 2 \<in> set ?fields"
    using three by simp
  then have "crlf_paired (?fields ! 2)"
    by (rule crlf_paired_split[OF assms(4) sep])
  then show ?thesis
    unfolding third by (rule crlf_paired_replace)
qed

theorem third_field_clean_witness:
  "clean_cloud [''a.txt'' \<mapsto> ''#x,y'' @ [CR, LF] @ ''1,2,3'' @ [CR, LF]] ''a.txt'' [] =
       Inr [[''1'', ''2'', ''3'']]
   \<and> (0::nat) < length [[''1'', ''2'', ''3'']]
   \<and> crlf_paired
        (filter (\<lambda>l. \<not> is_noise l)
           (file_lines (''#x,y'' @ [CR, LF] @ ''1,2,3'' @ [CR, LF])) ! 0)
   \<and> CR \<notin> set ([[''1'', ''2'', ''3'']] ! 0 ! 2) \<and> LF \<notin> set ([[''1'', ''2'', ''3'']] ! 0 ! 2)"
proof -
  let ?c = "''#x,y'' @ [CR, LF] @ ''1,2,3'' @ [CR, LF]"
  have h: "[''a.txt'' \<mapsto> ?c] ''a.txt'' = Some ?c"
    by simp
  have r: "clean_cloud [''a.txt'' \<mapsto> ?c] ''a.txt'' [] = Inr [[''1'', ''2'', ''3'']]"
    by code_simp
  have i: "(0::nat) < length [[''1'', ''2'', ''3'']]"
    by simp
  have p: "crlf_paired (filter (\<lambda>l. \<not> is_noise l) (file_lines ?c) ! 0)"
    by code_simp
  show ?thesis
    by (intro conjI r i p
        third_field_clean[where fs = "[''a.txt'' \<mapsto> ?c]", OF r h i p, THEN conjunct1]
        third_field_clean[where fs = "[''a.txt'' \<mapsto> ?c]", OF r h i p, THEN conjunct2])
qed

subsection \<open>The subsample validator\<close>

text \<open>
  Claim C4. The validator returns the parsed float exactly when the text parses and the
  value is greater than 0 and at most 1; in every other case (the text does not parse, or
  the value is outside that interval, an infinity or NaN) it returns \<open>None\<close>.
\<close>

theorem validate_subsample_accepts:
  "validate_subsample to_float x =
     (if \<exists>r. to_float x = Some (Finite r) \<and> 0 < r \<and> r \<le> 1 then to_float x else None)"
proof (cases "to_float x")
  case None
  then show ?thesis
    by (simp add: validate_subsample_def)
next
  case (Some v)
  then show ?thesis
    by (cases v) (simp_all add: validate_subsample_def)
qed

theorem validate_subsample_accepts_witness:
  "validate_subsample
     (\<lambda>s. if s = ''0.5'' then Some (Finite (1 / 2))
          else if s = ''1.5'' then Some (Finite (3 / 2))
          else if s = ''nan'' then Some NaN
          else None) ''0.5'' = Some (Finite (1 / 2))
   \<and> validate_subsample
     (\<lambda>s. if s = ''0.5'' then Some (Finite (1 / 2))
          else if s = ''1.5'' then Some (Finite (3 / 2))
          else if s = ''nan'' then Some NaN
          else None) ''1.5'' = None
   \<and> validate_subsample
     (\<lambda>s. if s = ''0.5'' then Some (Finite (1 / 2))
          else if s = ''1.5'' then Some (Finite (3 / 2))
          else if s = ''nan'' then Some NaN
          else None) ''nan'' = None
   \<and> validate_subsample
     (\<lambda>s. if s = ''0.5'' then Some (Finite (1 / 2))
          else if s = ''1.5'' then Some (Finite (3 / 2))
          else if s = ''nan'' then Some NaN
          else None) ''abc'' = None"
proof -
  let ?f = "\<lambda>s. if s = ''0.5'' then Some (Finite (1 / 2))
          else if s = ''1.5'' then Some (Finite (3 / 2))
          else if s = ''nan'' then Some NaN
          else None"
  have "\<exists>r. ?f ''0.5'' = Some (Finite r) \<and> 0 < r \<and> r \<le> 1"
    by (rule exI[of _ "1 / 2"]) simp
  then have a: "validate_subsample ?f ''0.5'' = Some (Finite (1 / 2))"
    using validate_subsample_accepts[of ?f "''0.5''"] by (simp only: if_True) simp
  have "\<not> (\<exists>r. ?f ''1.5'' = Some (Finite r) \<and> 0 < r \<and> r \<le> 1)"
    by auto
  then have b: "validate_subsample ?f ''1.5'' = None"
    using validate_subsample_accepts[of ?f "''1.5''"] by (simp only: if_False)
  have "\<not> (\<exists>r. ?f ''nan'' = Some (Finite r) \<and> 0 < r \<and> r \<le> 1)"
    by simp
  then have c: "validate_subsample ?f ''nan'' = None"
    using validate_subsample_accepts[of ?f "''nan''"] by (simp only: if_False)
  have "\<not> (\<exists>r. ?f ''abc'' = Some (Finite r) \<and> 0 < r \<and> r \<le> 1)"
    by simp
  then have d: "validate_subsample ?f ''abc'' = None"
    using validate_subsample_accepts[of ?f "''abc''"] by (simp only: if_False)
  show ?thesis
    by (intro conjI a b c d)
qed

subsection \<open>The output path\<close>

text \<open>
  Claim C9. The output path has the directory of the input path, and its file name is the
  base name of the input file (its name without the extension) followed by \<open>.xlsx\<close>:
  splitting the output path gives back the head of the input path and that file name.
\<close>

theorem xlsx_path_keeps_directory_and_name:
  "path_split (xlsx_path filepath) =
     (fst (path_split filepath), fst (splitext (snd (path_split filepath))) @ ''.xlsx'')"
proof -
  let ?head = "fst (path_split filepath)"
  let ?tail = "snd (path_split filepath)"
  let ?filename = "fst (splitext ?tail)"
  have x: "xlsx_path filepath = path_join ?head (?filename @ ''.xlsx'')"
    by (simp add: xlsx_path_def Let_def split_beta)
  have "CHR ''/'' \<notin> set ?filename"
    using splitext_root_subset[of ?tail] path_split_tail_no_slash[of filepath] by blast
  then have ns: "CHR ''/'' \<notin> set (?filename @ ''.xlsx'')"
    by simp
  have ne: "?filename @ ''.xlsx'' \<noteq> []"
    by simp
  show ?thesis
    unfolding x by (rule path_split_join[OF ns ne path_split_head_cases])
qed

theorem xlsx_path_keeps_directory_and_name_witness:
  "path_split (xlsx_path ''/data/scan 1/section.a.txt'') = (''/data/scan 1'', ''section.a.xlsx'')
   \<and> xlsx_path ''/data/scan 1/section.a.txt'' = ''/data/scan 1/section.a.xlsx''"
proof -
  let ?p = "''/data/scan 1/section.a.txt''"
  have r: "(fst (path_split ?p), fst (splitext (snd (path_split ?p))) @ ''.xlsx'') =
             (''/data/scan 1'', ''section.a.xlsx'')"
    by code_simp
  have s: "path_split (xlsx_path ?p) = (''/data/scan 1'', ''section.a.xlsx'')"
    using xlsx_path_keeps_directory_and_name[of ?p] unfolding r .
  have x: "xlsx_path ?p = ''/data/scan 1/section.a.xlsx''"
    by code_simp
  show ?thesis
    by (rule conjI[OF s x])
qed

subsection \<open>The sampler and writer\<close>

text \<open>
  Claim C1. For a fraction \<open>f\<close> with \<open>0 < f \<le> 1\<close> and a dataset of \<open>N\<close> rows, the sheet
  written has \<open>round(f \<times> N)\<close> rows: that count never exceeds \<open>N\<close>, so the draw without
  replacement delivers it in full.
\<close>

theorem sample_row_count:
  assumes "0 < f" and "f \<le> 1"
  shows "length (snd (create_xlsx rng seed filepath data f)) =
           nat (round (f * real (length data)))"
proof -
  have "length (snd (create_xlsx rng seed filepath data f)) =
          min (nat (round (f * real (length data)))) (length data)"
    by (simp add: create_xlsx_def sample_def length_draw)
  also have "\<dots> = nat (round (f * real (length data)))"
    using round_fraction_le[OF assms, of "length data"] by simp
  finally show ?thesis .
qed

theorem sample_row_count_witness:
  "(0::real) < 1 / 2 \<and> (1 / 2 :: real) \<le> 1
   \<and> length (snd (create_xlsx (\<lambda>seed n. seed + n) 7 ''a.txt''
         [[''1'', ''2'', ''3''], [''4'', ''5'', ''6''], [''7'', ''8'', ''9'']] (1 / 2))) =
       nat (round (1 / 2 * real (length [[''1'', ''2'', ''3''], [''4'', ''5'', ''6''], [''7'', ''8'', ''9'']])))
   \<and> nat (round (1 / 2 * real (length [[''1'', ''2'', ''3''], [''4'', ''5'', ''6''], [''7'', ''8'', ''9'']]))) = 2"
proof -
  have h1: "(0::real) < 1 / 2" by simp
  have h2: "(1 / 2 :: real) \<le> 1" by simp
  have v: "nat (round (1 / 2 * real (length [[''1'', ''2'', ''3''], [''4'', ''5'', ''6''], [''7'', ''8'', ''9'']]))) = 2"
    by (simp add: round_def)
  show ?thesis
    by (intro conjI h1 h2 v sample_row_count[OF h1 h2])
qed

text \<open>
  Claim C10. Sampling is without replacement: the rows written form a sub-multiset of the
  cleaned dataset (no row occurs more often in the output than in the data), and in
  particular every row written is a row of the data. This holds for every fraction.
\<close>

theorem sample_without_replacement:
  "mset (snd (create_xlsx rng seed filepath data subsample)) \<subseteq># mset data \<and>
   set (snd (create_xlsx rng seed filepath data subsample)) \<subseteq> set data"
proof -
  have m: "mset (snd (create_xlsx rng seed filepath data subsample)) \<subseteq># mset data"
    by (simp add: create_xlsx_def sample_def mset_draw)
  then have "set_mset (mset (snd (create_xlsx rng seed filepath data subsample))) \<subseteq> set_mset (mset data)"
    by (rule set_mset_mono)
  with m show ?thesis by simp
qed

theorem sample_without_replacement_witness:
  "mset (snd (create_xlsx (\<lambda>seed n. seed + n) 7 ''a.txt''
       [[''1'', ''2'', ''3''], [''4'', ''5'', ''6''], [''1'', ''2'', ''3'']] (1 / 2)))
     \<subseteq># mset [[''1'', ''2'', ''3''], [''4'', ''5'', ''6''], [''1'', ''2'', ''3'']]
   \<and> set (snd (create_xlsx (\<lambda>seed n. seed + n) 7 ''a.txt''
       [[''1'', ''2'', ''3''], [''4'', ''5'', ''6''], [''1'', ''2'', ''3'']] (1 / 2)))
     \<subseteq> set [[''1'', ''2'', ''3''], [''4'', ''5'', ''6''], [''1'', ''2'', ''3'']]"
  by (rule sample_without_replacement)



end
